theory Spec2Isabelle
  imports Complex_Main
begin

section \<open>Store schema (models.py)\<close>

text \<open>
  A timestamp is a number of seconds since the epoch; \<open>date_of\<close> is the calendar day
  that \<open>func.date(...)\<close> and \<open>datetime.now().date()\<close> compute. One clock value
  \<open>now\<close> is passed to each operation: it serves both as \<open>datetime.now()\<close> of the
  application and as \<open>func.now()\<close> of the store.
\<close>

type_synonym datetime = nat

definition date_of :: "datetime \<Rightarrow> nat" where
  "date_of t = t div 86400"

text \<open>Table \<open>mahasiswa\<close>: primary key \<open>nim\<close>, nullable face vector.\<close>

record mahasiswa =
  mhs_nim :: string
  embedding_data :: "real list option"

text \<open>Table \<open>kelas_enrollment\<close>: both foreign keys are non-null.\<close>

record kelas_enrollment =
  enr_nim :: string
  enr_student_class_id :: int

text \<open>
  Table \<open>jadwal\<close>. The column \<open>student_class_id\<close> is optional in
  \<open>JadwalCreateSchema\<close> and the analyzer tests it for truthiness, so it is an option.
\<close>

record jadwal =
  jdw_jadwal_id :: int
  jdw_student_class_id :: "int option"

text \<open>Table \<open>video_tasks\<close>.\<close>

record video_task =
  vt_task_id :: string
  vt_jadwal_id :: "int option"
  vt_status :: string
  is_closed :: bool

text \<open>Table \<open>log_absensi\<close>, with the source's column names.\<close>

record log_absensi =
  log_id :: nat
  task_id :: "string option"
  nim :: string
  jadwal_id :: "int option"
  waktu_absen :: datetime
  metode :: string
  jumlah_muncul :: "int option"
  emosi_dominan :: "string option"
  bukti_foto :: "string option"
  is_disputed :: bool
  keterangan_report :: "string option"

text \<open>
  The store: one list of rows per table, in storage order, and the sequence that feeds
  the autoincrement key of \<open>log_absensi\<close>.
\<close>

record database =
  tbl_mahasiswa :: "mahasiswa list"
  tbl_kelas_enrollment :: "kelas_enrollment list"
  tbl_jadwal :: "jadwal list"
  tbl_video_tasks :: "video_task list"
  tbl_log_absensi :: "log_absensi list"
  log_seq :: nat

datatype error = TypeError | HTTPException nat | SQLAlchemyError

section \<open>Storage primitives\<close>

text \<open>
  \<open>db.add(row)\<close>: the row is appended and takes the next key of the sequence.
  \<open>LogAbsensi\<close> declares no unique constraint and no index over
  \<open>(nim, jadwal_id, date(waktu_absen))\<close>, so nothing is checked here. The foreign
  keys of an inserted row are taken to hold and a commit to succeed: a detected NIM comes
  from the face index, which is loaded from \<open>mahasiswa\<close>, the manual entry looks the
  student up first, and the schedule is looked up by every operation.
\<close>

definition add_log :: "database \<Rightarrow> log_absensi \<Rightarrow> database" where
  "add_log db l =
     db\<lparr>tbl_log_absensi := tbl_log_absensi db @ [l\<lparr>log_id := log_seq db\<rparr>],
        log_seq := Suc (log_seq db)\<rparr>"

text \<open>
  An attribute assignment on the object that \<open>.scalars().first()\<close> returned: the
  first row that satisfies the query's predicate is rewritten in place.
\<close>

fun update_first :: "('a \<Rightarrow> bool) \<Rightarrow> ('a \<Rightarrow> 'a) \<Rightarrow> 'a list \<Rightarrow> 'a list" where
  "update_first P f [] = []"
| "update_first P f (x # xs) = (if P x then f x # xs else x # update_first P f xs)"

text \<open>
  The lookup shared by the analyzer and the manual entry:
  \<open>nim == nim and jadwal_id == jadwal_id and date(waktu_absen) == today\<close>.
\<close>

definition log_matches :: "string \<Rightarrow> int \<Rightarrow> nat \<Rightarrow> log_absensi \<Rightarrow> bool" where
  "log_matches n jid today l \<longleftrightarrow>
     nim l = n \<and> jadwal_id l = Some jid \<and> date_of (waktu_absen l) = today"

definition existing_log :: "database \<Rightarrow> string \<Rightarrow> int \<Rightarrow> nat \<Rightarrow> log_absensi option" where
  "existing_log db n jid today = find (log_matches n jid today) (tbl_log_absensi db)"

definition find_jadwal :: "database \<Rightarrow> int \<Rightarrow> jadwal option" where
  "find_jadwal db jid = find (\<lambda>j. jdw_jadwal_id j = jid) (tbl_jadwal db)"

section \<open>Automatic evidence (background_video_analyzer, database phase)\<close>

text \<open>
  One entry of \<open>detected_students\<close>: the appearance count, the emotion tally in
  insertion order, and the path of the first crop.
\<close>

record meta =
  meta_count :: int
  meta_emosi :: "(string \<times> int) list"
  meta_sample :: "string option"

text \<open>\<open>max(d, key=d.get)\<close>: the first key, in insertion order, with the largest value.\<close>

fun max_key :: "string \<times> int \<Rightarrow> (string \<times> int) list \<Rightarrow> string" where
  "max_key (k, v) [] = k"
| "max_key (k, v) ((k', v') # rest) = (if v' > v then max_key (k', v') rest else max_key (k, v) rest)"

definition dominant_emotion :: "(string \<times> int) list \<Rightarrow> string" where
  "dominant_emotion emosi = (case emosi of [] \<Rightarrow> ''Neutral'' | kv # rest \<Rightarrow> max_key kv rest)"

text \<open>Python truthiness of \<open>jadwal_obj.student_class_id\<close>: \<open>None\<close> and \<open>0\<close> are false.\<close>

definition truthy_id :: "int option \<Rightarrow> bool" where
  "truthy_id x = (case x of None \<Rightarrow> False | Some c \<Rightarrow> c \<noteq> 0)"

text \<open>
  \<open>enrolled_nims\<close>: \<open>None\<close> when the schedule has no student class (enrollment
  filtering is then skipped), else the NIMs enrolled in that class.
\<close>

definition enrolled_nims_of :: "database \<Rightarrow> jadwal \<Rightarrow> string list option" where
  "enrolled_nims_of db j =
     (if truthy_id (jdw_student_class_id j)
      then Some (map enr_nim
             (filter (\<lambda>e. Some (enr_student_class_id e) = jdw_student_class_id j)
                (tbl_kelas_enrollment db)))
      else None)"

definition skipped :: "string list option \<Rightarrow> string \<Rightarrow> bool" where
  "skipped enrolled n = (case enrolled of None \<Rightarrow> False | Some ns \<Rightarrow> n \<notin> set ns)"

definition new_ai_log :: "string \<Rightarrow> int \<Rightarrow> datetime \<Rightarrow> string \<Rightarrow> meta \<Rightarrow> log_absensi" where
  "new_ai_log task jid now n m =
     \<lparr>log_id = 0, task_id = Some task, nim = n, jadwal_id = Some jid, waktu_absen = now,
      metode = ''AI_VIDEO'', jumlah_muncul = Some (meta_count m),
      emosi_dominan = Some (dominant_emotion (meta_emosi m)),
      bukti_foto = meta_sample m, is_disputed = False, keterangan_report = None\<rparr>"

text \<open>
  The body of \<open>for nim, meta in detected_students.items()\<close>. Adding to a NULL
  \<open>jumlah_muncul\<close> raises \<open>TypeError\<close>.
\<close>

definition process_student ::
  "string \<Rightarrow> int \<Rightarrow> datetime \<Rightarrow> string list option \<Rightarrow> string \<times> meta \<Rightarrow> database
     \<Rightarrow> error + database" where
  "process_student task jid now enrolled nm db =
     (let n = fst nm; m = snd nm in
      if skipped enrolled n then Inr db
      else case existing_log db n jid (date_of now) of
             None \<Rightarrow> Inr (add_log db (new_ai_log task jid now n m))
           | Some ex \<Rightarrow>
               if metode ex = ''AI_VIDEO'' then
                 (case jumlah_muncul ex of
                    None \<Rightarrow> Inl TypeError
                  | Some c \<Rightarrow>
                      Inr (db\<lparr>tbl_log_absensi :=
                             update_first (log_matches n jid (date_of now))
                               (\<lambda>l. l\<lparr>jumlah_muncul := Some (c + meta_count m)\<rparr>)
                               (tbl_log_absensi db)\<rparr>))
               else Inr db)"

fun process_all ::
  "string \<Rightarrow> int \<Rightarrow> datetime \<Rightarrow> string list option \<Rightarrow> (string \<times> meta) list \<Rightarrow> database
     \<Rightarrow> error + database" where
  "process_all task jid now enrolled [] db = Inr db"
| "process_all task jid now enrolled (nm # rest) db =
     (case process_student task jid now enrolled nm db of
        Inl e \<Rightarrow> Inl e
      | Inr db' \<Rightarrow> process_all task jid now enrolled rest db')"

definition set_task_status :: "string \<Rightarrow> string \<Rightarrow> database \<Rightarrow> database" where
  "set_task_status task s db =
     db\<lparr>tbl_video_tasks :=
          update_first (\<lambda>t. vt_task_id t = task) (\<lambda>t. t\<lparr>vt_status := s\<rparr>) (tbl_video_tasks db)\<rparr>"

text \<open>
  The transaction after the video loop; the result is the committed store. A missing
  schedule returns before the commit, so nothing is written. An exception rolls the
  transaction back, and a second transaction marks the task failed.
\<close>

definition background_video_analyzer ::
  "string \<Rightarrow> int \<Rightarrow> datetime \<Rightarrow> (string \<times> meta) list \<Rightarrow> database \<Rightarrow> database" where
  "background_video_analyzer task jid now detected_students db =
     (let db1 = set_task_status task ''completed'' db in
      case find_jadwal db1 jid of
        None \<Rightarrow> db
      | Some jadwal_obj \<Rightarrow>
          (case process_all task jid now (enrolled_nims_of db1 jadwal_obj) detected_students db1 of
             Inr db2 \<Rightarrow> db2
           | Inl e \<Rightarrow> set_task_status task ''failed'' db))"

section \<open>Manual entry (endpoint_manual_absen)\<close>

definition new_manual_log :: "string \<Rightarrow> int \<Rightarrow> datetime \<Rightarrow> log_absensi" where
  "new_manual_log n jid now =
     \<lparr>log_id = 0, task_id = None, nim = n, jadwal_id = Some jid, waktu_absen = now,
      metode = ''MANUAL_DOSEN'', jumlah_muncul = Some 1,
      emosi_dominan = Some ''Manual Input'', bukti_foto = None,
      is_disputed = False, keterangan_report = None\<rparr>"

definition force_manual :: "datetime \<Rightarrow> log_absensi \<Rightarrow> log_absensi" where
  "force_manual now l =
     l\<lparr>metode := ''MANUAL_DOSEN'', is_disputed := False, keterangan_report := None,
       waktu_absen := now\<rparr>"

definition is_enrolled :: "database \<Rightarrow> string \<Rightarrow> jadwal \<Rightarrow> bool" where
  "is_enrolled db n j \<longleftrightarrow>
     find (\<lambda>e. enr_nim e = n \<and> Some (enr_student_class_id e) = jdw_student_class_id j)
       (tbl_kelas_enrollment db) \<noteq> None"

definition endpoint_manual_absen ::
  "string \<Rightarrow> int \<Rightarrow> datetime \<Rightarrow> database \<Rightarrow> error + database" where
  "endpoint_manual_absen n jid now db =
     (if find (\<lambda>m. mhs_nim m = n) (tbl_mahasiswa db) = None then Inl (HTTPException 404)
      else case find_jadwal db jid of
             None \<Rightarrow> Inl (HTTPException 404)
           | Some jadwal \<Rightarrow>
               if \<not> is_enrolled db n jadwal then Inl (HTTPException 403)
               else (case existing_log db n jid (date_of now) of
                       Some ex \<Rightarrow>
                         Inr (db\<lparr>tbl_log_absensi :=
                                update_first (log_matches n jid (date_of now)) (force_manual now)
                                  (tbl_log_absensi db)\<rparr>)
                     | None \<Rightarrow> Inr (add_log db (new_manual_log n jid now))))"

text \<open>The store after a request: a raised exception commits nothing.\<close>

definition committed :: "database \<Rightarrow> error + database \<Rightarrow> database" where
  "committed db r = (case r of Inl e \<Rightarrow> db | Inr db' \<Rightarrow> db')"

section \<open>Closing a session (close_class_session)\<close>

definition new_alpha_log :: "string \<Rightarrow> int \<Rightarrow> datetime \<Rightarrow> log_absensi" where
  "new_alpha_log n jid now =
     \<lparr>log_id = 0, task_id = None, nim = n, jadwal_id = Some jid, waktu_absen = now,
      metode = ''ALPHA_SYSTEM'', jumlah_muncul = Some 0, emosi_dominan = None,
      bukti_foto = None, is_disputed = False, keterangan_report = None\<rparr>"

text \<open>
  The join of \<open>mahasiswa\<close> with \<open>kelas_enrollment\<close>, filtered on a registered face:
  one NIM per matching pair of rows.
\<close>

definition enrolled_results :: "database \<Rightarrow> jadwal \<Rightarrow> string list" where
  "enrolled_results db j =
     concat (map (\<lambda>m.
        map (\<lambda>e. mhs_nim m)
          (filter (\<lambda>e. enr_nim e = mhs_nim m \<and>
                       Some (enr_student_class_id e) = jdw_student_class_id j)
             (tbl_kelas_enrollment db)))
       (filter (\<lambda>m. embedding_data m \<noteq> None) (tbl_mahasiswa db)))"

definition present_results :: "database \<Rightarrow> int \<Rightarrow> nat \<Rightarrow> string list" where
  "present_results db jid today =
     map nim (filter (\<lambda>l. jadwal_id l = Some jid \<and> date_of (waktu_absen l) = today)
                (tbl_log_absensi db))"

text \<open>
  \<open>for nim in enrolled_nims: if nim not in present_nims: db.add(alpha_log)\<close>. The
  Python set holds each NIM once and is walked in some fixed order, here that of
  \<open>remdups\<close>; \<open>present_nims\<close> was computed before the loop.
\<close>

fun add_alpha_logs :: "int \<Rightarrow> datetime \<Rightarrow> string list \<Rightarrow> string list \<Rightarrow> database \<Rightarrow> database" where
  "add_alpha_logs jid now present [] db = db"
| "add_alpha_logs jid now present (n # ns) db =
     add_alpha_logs jid now present ns
       (if n \<notin> set present then add_log db (new_alpha_log n jid now) else db)"

definition close_tasks :: "int \<Rightarrow> database \<Rightarrow> database" where
  "close_tasks jid db =
     db\<lparr>tbl_video_tasks :=
          map (\<lambda>t. if vt_jadwal_id t = Some jid then t\<lparr>is_closed := True\<rparr> else t)
            (tbl_video_tasks db)\<rparr>"

definition close_class_session :: "int \<Rightarrow> datetime \<Rightarrow> database \<Rightarrow> error + database" where
  "close_class_session jid now db =
     (case find_jadwal db jid of
        None \<Rightarrow> Inl (HTTPException 404)
      | Some jadwal \<Rightarrow>
          (let enrolled_nims = remdups (enrolled_results db jadwal);
               present_nims = present_results db jid (date_of now)
           in Inr (close_tasks jid (add_alpha_logs jid now present_nims enrolled_nims db))))"

section \<open>Views and invariants of the ledger\<close>

text \<open>
  The attendance rows of one student, and the condition under which the analyzer's
  \<open>+=\<close> cannot raise: every \<open>AI_VIDEO\<close> row has a count.
\<close>

definition logs_of_student :: "database \<Rightarrow> string \<Rightarrow> log_absensi list" where
  "logs_of_student db n = filter (\<lambda>l. nim l = n) (tbl_log_absensi db)"

definition counts_ok :: "database \<Rightarrow> bool" where
  "counts_ok db \<longleftrightarrow>
     list_all (\<lambda>l. metode l = ''AI_VIDEO'' \<longrightarrow> jumlah_muncul l \<noteq> None) (tbl_log_absensi db)"


text \<open>
  The spec's words for the first operand of the set difference: the cohort members that
  have a registered embedding.
\<close>

definition members_with_embedding :: "database \<Rightarrow> jadwal \<Rightarrow> string set" where
  "members_with_embedding db j =
     set (map mhs_nim
       (filter (\<lambda>m. embedding_data m \<noteq> None \<and> is_enrolled db (mhs_nim m) j)
          (tbl_mahasiswa db)))"

text \<open>
  The ledger's key and its invariant: among the rows bound to a session, no two share
  (student, session, calendar day).
\<close>

definition attendance_key :: "log_absensi \<Rightarrow> string \<times> int option \<times> nat" where
  "attendance_key l = (nim l, jadwal_id l, date_of (waktu_absen l))"

definition has_session :: "log_absensi \<Rightarrow> bool" where
  "has_session l \<longleftrightarrow> jadwal_id l \<noteq> None"

definition unique_attendance :: "database \<Rightarrow> bool" where
  "unique_attendance db \<longleftrightarrow>
     distinct (map attendance_key (filter has_session (tbl_log_absensi db)))"

section \<open>Identity index (SystemStateManager, identify_face_fast, reload)\<close>

text \<open>
  The face cache of \<open>SystemStateManager\<close>. Vectors are lists of reals: the model
  computes with exact arithmetic, not with IEEE floats; rounding and NaN are outside it.
\<close>

record index_state =
  known_ids :: "string list"
  known_matrix :: "real list list option"
  last_reload :: "datetime option"

definition FACE_SIMILARITY_THRESHOLD :: real where
  "FACE_SIMILARITY_THRESHOLD = 1 / 2"

text \<open>\<open>np.linalg.norm\<close>, the division of a vector by a scalar, and \<open>np.dot\<close> of two vectors.\<close>

definition norm_l2 :: "real list \<Rightarrow> real" where
  "norm_l2 v = sqrt (sum_list (map (\<lambda>x. x * x) v))"

definition normalize :: "real list \<Rightarrow> real list" where
  "normalize v = map (\<lambda>x. x / norm_l2 v) v"

definition dot :: "real list \<Rightarrow> real list \<Rightarrow> real" where
  "dot u v = sum_list (map (\<lambda>(x, y). x * y) (zip u v))"

text \<open>\<open>np.argmax\<close>: the index of the first occurrence of the maximum.\<close>

definition argmax :: "real list \<Rightarrow> nat" where
  "argmax xs = length (takeWhile (\<lambda>x. x \<noteq> Max (set xs)) xs)"

text \<open>
  \<open>identify_face_fast\<close>. Inside the \<open>try\<close>, \<open>np.dot(matrix, v)\<close> raises when the
  matrix has no row or a row's length differs from the vector's, and \<open>known_ids[best_idx]\<close>
  raises past the end of the list; the handler returns \<open>("Error", 0.0)\<close>. A zero vector
  does not raise: its scores are not above the threshold, in numpy (NaN) as here (0).
\<close>

definition identify_face_fast :: "index_state \<Rightarrow> real list \<Rightarrow> string \<times> real" where
  "identify_face_fast st embedding =
     (case known_matrix st of
        None \<Rightarrow> (''Unknown'', 0)
      | Some matrix \<Rightarrow>
          if length (known_ids st) = 0 then (''Unknown'', 0)
          else if matrix = [] \<or> \<not> list_all (\<lambda>row. length row = length embedding) matrix
          then (''Error'', 0)
          else
            (let norm_emb = normalize embedding;
                 scores = map (\<lambda>row. dot row norm_emb) matrix;
                 best_idx = argmax scores;
                 max_score = scores ! best_idx
             in if max_score > FACE_SIMILARITY_THRESHOLD
                then (if best_idx < length (known_ids st)
                      then (known_ids st ! best_idx, max_score) else (''Error'', 0))
                else (''Unknown'', 0)))"

text \<open>
  The rows the reload statement selects: students whose \<open>embedding_data\<close> is not NULL.
\<close>

definition rows_with_embedding :: "database \<Rightarrow> (string \<times> real list) list" where
  "rows_with_embedding db =
     concat (map (\<lambda>m. case embedding_data m of None \<Rightarrow> [] | Some v \<Rightarrow> [(mhs_nim m, v)])
       (tbl_mahasiswa db))"

text \<open>
  The inner \<open>try\<close> of the reload loop: conversion to an array and division by the norm.
  On a stored vector neither raises (a zero norm gives a warning, not an exception), so
  the conversion always succeeds; the loop still drops a row whose conversion fails.
\<close>

definition convert_row :: "real list \<Rightarrow> error + real list" where
  "convert_row embedding_val = Inr (normalize embedding_val)"

fun load_rows :: "(string \<times> real list) list \<Rightarrow> string list \<times> real list list" where
  "load_rows [] = ([], [])"
| "load_rows ((n, embedding_val) # rows) =
     (case convert_row embedding_val of
        Inl e \<Rightarrow> load_rows rows
      | Inr norm_vec \<Rightarrow> (n # fst (load_rows rows), norm_vec # snd (load_rows rows)))"

text \<open>
  \<open>reload_face_database_async\<close>. The second argument is the outcome of opening the
  session and executing the statement: an exception, or the store that answers.
\<close>

definition reload_face_database_async ::
  "datetime \<Rightarrow> error + database \<Rightarrow> index_state \<Rightarrow> index_state" where
  "reload_face_database_async now fetched st =
     (case fetched of
        Inl e \<Rightarrow> st
      | Inr db \<Rightarrow>
          (let temp_ids = fst (load_rows (rows_with_embedding db));
               temp_vectors = snd (load_rows (rows_with_embedding db))
           in if temp_vectors \<noteq> []
              then st\<lparr>known_ids := temp_ids, known_matrix := Some temp_vectors,
                      last_reload := Some now\<rparr>
              else st\<lparr>known_ids := [], known_matrix := None\<rparr>))"

section \<open>Frame sampling (background_video_analyzer, video loop)\<close>

text \<open>
  An opened \<open>cv2.VideoCapture\<close>: the frame count property (already cast to int), the
  fps property, and whether \<open>cap.read()\<close> succeeds after a seek to a given offset.
\<close>

record video =
  total_frames :: int
  fps_prop :: real
  read_ok :: "int \<Rightarrow> bool"

text \<open>Python's \<open>int(x)\<close> on a float truncates toward zero.\<close>

definition py_int :: "real \<Rightarrow> int" where
  "py_int x = (if 0 \<le> x then \<lfloor>x\<rfloor> else \<lceil>x\<rceil>)"

text \<open>\<open>fps = cap.get(cv2.CAP_PROP_FPS) or 30\<close> and \<open>frame_interval = int(fps * 1.5)\<close>.\<close>

definition frame_interval :: "video \<Rightarrow> int" where
  "frame_interval v = py_int ((if fps_prop v = 0 then 30 else fps_prop v) * (3 / 2))"

text \<open>
  The \<open>while True\<close> loop, reduced to what decides which frames are sampled: seek and
  read at \<open>current_frame_idx\<close>, leave on a failed read, analyse the frame, advance by
  the interval, leave when the index has reached the frame count. The result is the list
  of sampled offsets; \<open>None\<close> stands for a loop that never leaves.
\<close>

partial_function (option) video_loop :: "video \<Rightarrow> int \<Rightarrow> int \<Rightarrow> int list \<Rightarrow> int list option" where
  "video_loop v step current_frame_idx sampled =
     (if \<not> read_ok v current_frame_idx then Some sampled
      else if current_frame_idx + step \<ge> total_frames v
           then Some (sampled @ [current_frame_idx])
           else video_loop v step (current_frame_idx + step) (sampled @ [current_frame_idx]))"

definition sampled_frames :: "video \<Rightarrow> int list option" where
  "sampled_frames v = video_loop v (frame_interval v) 0 []"

text \<open>The spec's words: the k-th offset is \<open>round(fps \<times> interval) \<times> k\<close>.\<close>

definition spec_offset :: "video \<Rightarrow> nat \<Rightarrow> int" where
  "spec_offset v k = round (fps_prop v * (3 / 2)) * int k"

section \<open>Example data\<close>

definition demo_db :: database where
  "demo_db =
     \<lparr>tbl_mahasiswa =
        [\<lparr>mhs_nim = ''S1'', embedding_data = Some [1, 0]\<rparr>,
         \<lparr>mhs_nim = ''S2'', embedding_data = Some [0, 1]\<rparr>,
         \<lparr>mhs_nim = ''S3'', embedding_data = Some [3, 4]\<rparr>,
         \<lparr>mhs_nim = ''S4'', embedding_data = None\<rparr>],
      tbl_kelas_enrollment =
        [\<lparr>enr_nim = ''S1'', enr_student_class_id = 7\<rparr>,
         \<lparr>enr_nim = ''S2'', enr_student_class_id = 7\<rparr>,
         \<lparr>enr_nim = ''S3'', enr_student_class_id = 7\<rparr>,
         \<lparr>enr_nim = ''S4'', enr_student_class_id = 7\<rparr>],
      tbl_jadwal = [\<lparr>jdw_jadwal_id = 1, jdw_student_class_id = Some 7\<rparr>],
      tbl_video_tasks =
        [\<lparr>vt_task_id = ''t1'', vt_jadwal_id = Some 1, vt_status = ''processing'',
          is_closed = False\<rparr>],
      tbl_log_absensi = [],
      log_seq = 0\<rparr>"

definition demo_manual_row :: log_absensi where
  "demo_manual_row =
     \<lparr>log_id = 0, task_id = None, nim = ''S1'', jadwal_id = Some 1, waktu_absen = 100,
      metode = ''MANUAL_DOSEN'', jumlah_muncul = Some 1,
      emosi_dominan = Some ''Manual Input'', bukti_foto = None,
      is_disputed = False, keterangan_report = None\<rparr>"

definition demo_meta :: "int \<Rightarrow> string \<Rightarrow> meta" where
  "demo_meta c p = \<lparr>meta_count = c, meta_emosi = [], meta_sample = Some p\<rparr>"



definition demo_ai_row :: log_absensi where
  "demo_ai_row =
     \<lparr>log_id = 0, task_id = Some ''t1'', nim = ''S1'', jadwal_id = Some 1, waktu_absen = 100,
      metode = ''AI_VIDEO'', jumlah_muncul = Some 3, emosi_dominan = Some ''happy'',
      bukti_foto = Some ''/hasil_crop/a.jpg'', is_disputed = False, keterangan_report = None\<rparr>"

definition demo_db_ai :: database where
  "demo_db_ai = demo_db\<lparr>tbl_log_absensi := [demo_ai_row], log_seq := 1\<rparr>"


definition demo_index :: index_state where
  "demo_index = \<lparr>known_ids = [''S1'', ''S2''], known_matrix = Some [[1, 0], [0, 1]],
                 last_reload = Some 50\<rparr>"

definition demo_video :: "real \<Rightarrow> video" where
  "demo_video f = \<lparr>total_frames = 100, fps_prop = f, read_ok = (\<lambda>i. True)\<rparr>"

section \<open>Facts about the storage primitives\<close>


lemma update_first_none: "find P xs = None \<Longrightarrow> update_first P f xs = xs"
  by (induction xs) (auto split: if_splits)

lemma update_first_index:
  "find P xs = Some x \<Longrightarrow> \<exists>k<length xs. xs ! k = x \<and> update_first P f xs = xs[k := f x]"
proof (induction xs)
  case Nil then show ?case by simp
next
  case (Cons a xs)
  show ?case
  proof (cases "P a")
    case True
    with Cons.prems show ?thesis by (intro exI[of _ 0]) simp
  next
    case False
    with Cons obtain k where "k < length xs" "xs ! k = x" "update_first P f xs = xs[k := f x]" by auto
    with False show ?thesis by (intro exI[of _ "Suc k"]) simp
  qed
qed

lemma length_update_first [simp]: "length (update_first P f xs) = length xs"
  by (induction xs) auto


lemma find_update_first_other:
  "(\<And>x. P x \<Longrightarrow> \<not> Q x \<and> \<not> Q (f x)) \<Longrightarrow> find Q (update_first P f xs) = find Q xs"
  by (induction xs) auto

lemma map_update_first:
  "(\<And>x. P x \<Longrightarrow> g (f x) = g x) \<Longrightarrow> map g (update_first P f xs) = map g xs"
  by (induction xs) auto



section \<open>The analyzer's transaction\<close>

lemma process_student_cases:
  assumes "process_student task jid now enrolled nm db = Inr db'"
  obtains (skip) "skipped enrolled (fst nm)" "db' = db"
  | (insert) "\<not> skipped enrolled (fst nm)"
      "existing_log db (fst nm) jid (date_of now) = None"
      "db' = add_log db (new_ai_log task jid now (fst nm) (snd nm))"
  | (merge) ex c where "\<not> skipped enrolled (fst nm)"
      "existing_log db (fst nm) jid (date_of now) = Some ex" "metode ex = ''AI_VIDEO''"
      "jumlah_muncul ex = Some c"
      "db' = db\<lparr>tbl_log_absensi :=
                update_first (log_matches (fst nm) jid (date_of now))
                  (\<lambda>l. l\<lparr>jumlah_muncul := Some (c + meta_count (snd nm))\<rparr>)
                  (tbl_log_absensi db)\<rparr>"
  | (keep) ex where "\<not> skipped enrolled (fst nm)"
      "existing_log db (fst nm) jid (date_of now) = Some ex" "metode ex \<noteq> ''AI_VIDEO''"
      "db' = db"
proof (cases "skipped enrolled (fst nm)")
  case True
  with assms have "db' = db" by (simp add: process_student_def Let_def)
  with True show ?thesis by (rule skip)
next
  case ns: False
  show ?thesis
  proof (cases "existing_log db (fst nm) jid (date_of now)")
    case None
    with ns assms have "db' = add_log db (new_ai_log task jid now (fst nm) (snd nm))"
      by (simp add: process_student_def Let_def)
    with ns None show ?thesis by (rule insert)
  next
    case (Some ex)
    show ?thesis
    proof (cases "metode ex = ''AI_VIDEO''")
      case False
      with ns Some assms have "db' = db" by (simp add: process_student_def Let_def)
      with ns Some False show ?thesis by (rule keep)
    next
      case ai: True
      show ?thesis
      proof (cases "jumlah_muncul ex")
        case None
        with ns Some ai assms show ?thesis by (simp add: process_student_def Let_def)
      next
        case c: (Some c)
        with ns Some ai assms have "db' = db\<lparr>tbl_log_absensi :=
                update_first (log_matches (fst nm) jid (date_of now))
                  (\<lambda>l. l\<lparr>jumlah_muncul := Some (c + meta_count (snd nm))\<rparr>)
                  (tbl_log_absensi db)\<rparr>"
          by (simp add: process_student_def Let_def)
        with ns Some ai c show ?thesis by (rule merge)
      qed
    qed
  qed
qed

lemma process_student_nonai:
  assumes "process_student task jid now enrolled nm db = Inr db'"
    and "i < length (tbl_log_absensi db)"
    and "metode (tbl_log_absensi db ! i) \<noteq> ''AI_VIDEO''"
  shows "i < length (tbl_log_absensi db') \<and> tbl_log_absensi db' ! i = tbl_log_absensi db ! i"
  using assms(1)
proof (cases rule: process_student_cases)
  case skip
  with assms(2) show ?thesis by simp
next
  case insert
  with assms(2) show ?thesis by (simp add: add_log_def nth_append)
next
  case (merge ex c)
  let ?f = "\<lambda>l. l\<lparr>jumlah_muncul := Some (c + meta_count (snd nm))\<rparr>"
  from merge(2) have "find (log_matches (fst nm) jid (date_of now)) (tbl_log_absensi db) = Some ex"
    by (simp add: existing_log_def)
  from update_first_index[OF this, of ?f]
  obtain k where k: "k < length (tbl_log_absensi db)" "tbl_log_absensi db ! k = ex"
    and upd: "update_first (log_matches (fst nm) jid (date_of now)) ?f (tbl_log_absensi db)
                = (tbl_log_absensi db)[k := ?f ex]"
    by blast
  from k(2) merge(3) assms(3) have "i \<noteq> k" by blast
  have "tbl_log_absensi db' = (tbl_log_absensi db)[k := ?f ex]"
    unfolding merge(5) upd[symmetric] by simp
  with \<open>i \<noteq> k\<close> assms(2) show ?thesis by simp
next
  case (keep ex)
  with assms(2) show ?thesis by simp
qed


lemma process_all_nonai:
  "process_all task jid now enrolled xs db = Inr db' \<Longrightarrow>
   i < length (tbl_log_absensi db) \<Longrightarrow>
   metode (tbl_log_absensi db ! i) \<noteq> ''AI_VIDEO'' \<Longrightarrow>
   i < length (tbl_log_absensi db') \<and> tbl_log_absensi db' ! i = tbl_log_absensi db ! i"
proof (induction xs arbitrary: db)
  case Nil
  then show ?case by simp
next
  case (Cons nm xs)
  from Cons.prems(1) obtain d where d: "process_student task jid now enrolled nm db = Inr d"
    and rest: "process_all task jid now enrolled xs d = Inr db'"
    by (auto split: sum.splits)
  from process_student_nonai[OF d Cons.prems(2,3)]
  have 1: "i < length (tbl_log_absensi d)" and 2: "tbl_log_absensi d ! i = tbl_log_absensi db ! i"
    by simp_all
  from Cons.prems(3) 2 have "metode (tbl_log_absensi d ! i) \<noteq> ''AI_VIDEO''" by simp
  from Cons.IH[OF rest 1 this] 2 show ?case by simp
qed

lemma set_task_status_logs [simp]:
  "tbl_log_absensi (set_task_status task s db) = tbl_log_absensi db"
  by (simp add: set_task_status_def)

lemma set_task_status_jadwal [simp]:
  "tbl_jadwal (set_task_status task s db) = tbl_jadwal db"
  by (simp add: set_task_status_def)

lemma set_task_status_enrollment [simp]:
  "tbl_kelas_enrollment (set_task_status task s db) = tbl_kelas_enrollment db"
  by (simp add: set_task_status_def)

lemma find_jadwal_set_task_status [simp]:
  "find_jadwal (set_task_status task s db) jid = find_jadwal db jid"
  by (simp add: find_jadwal_def)

lemma enrolled_nims_of_set_task_status [simp]:
  "enrolled_nims_of (set_task_status task s db) j = enrolled_nims_of db j"
  by (simp add: enrolled_nims_of_def)

lemma existing_log_set_task_status [simp]:
  "existing_log (set_task_status task s db) n jid today = existing_log db n jid today"
  by (simp add: existing_log_def)

text \<open>The three ways the transaction ends.\<close>

lemma background_video_analyzer_cases:
  obtains (no_jadwal) "find_jadwal db jid = None"
      "background_video_analyzer task jid now detected db = db"
  | (commit) j db2 where "find_jadwal db jid = Some j"
      "process_all task jid now (enrolled_nims_of db j) detected
         (set_task_status task ''completed'' db) = Inr db2"
      "background_video_analyzer task jid now detected db = db2"
  | (failed) j e where "find_jadwal db jid = Some j"
      "process_all task jid now (enrolled_nims_of db j) detected
         (set_task_status task ''completed'' db) = Inl e"
      "background_video_analyzer task jid now detected db = set_task_status task ''failed'' db"
proof (cases "find_jadwal db jid")
  case None
  then have "background_video_analyzer task jid now detected db = db"
    by (simp add: background_video_analyzer_def)
  with None show ?thesis by (rule no_jadwal)
next
  case (Some j)
  show ?thesis
  proof (cases "process_all task jid now (enrolled_nims_of db j) detected
         (set_task_status task ''completed'' db)")
    case (Inl e)
    with Some have "background_video_analyzer task jid now detected db = set_task_status task ''failed'' db"
      by (simp add: background_video_analyzer_def)
    with Some Inl show ?thesis by (rule failed)
  next
    case (Inr db2)
    with Some have "background_video_analyzer task jid now detected db = db2"
      by (simp add: background_video_analyzer_def)
    with Some Inr show ?thesis by (rule commit)
  qed
qed

text \<open>
  Claim C2. Every stored attendance row whose method is \<open>MANUAL_DOSEN\<close> or
  \<open>ALPHA_SYSTEM\<close> is, after the analyzer's transaction for any session, any day and any
  detected students, still stored at the same place with every field unchanged; this holds
  in particular for the row of (student, session, today).
\<close>

theorem auto_evidence_keeps_manual_and_alpha:
  assumes "i < length (tbl_log_absensi db)"
    and "metode (tbl_log_absensi db ! i) = ''MANUAL_DOSEN'' \<or>
         metode (tbl_log_absensi db ! i) = ''ALPHA_SYSTEM''"
  shows "i < length (tbl_log_absensi (background_video_analyzer task jid now detected db)) \<and>
         tbl_log_absensi (background_video_analyzer task jid now detected db) ! i
           = tbl_log_absensi db ! i"
proof -
  from assms(2) have nonai: "metode (tbl_log_absensi db ! i) \<noteq> ''AI_VIDEO''" by auto
  show ?thesis
  proof (cases rule: background_video_analyzer_cases[of db jid task now detected])
    case no_jadwal
    with assms(1) show ?thesis by simp
  next
    case (commit j db2)
    from process_all_nonai[OF commit(2)] assms(1) nonai commit(3) show ?thesis by simp
  next
    case (failed j e)
    with assms(1) show ?thesis by simp
  qed
qed

theorem auto_evidence_keeps_manual_and_alpha_witness:
  "metode demo_manual_row = ''MANUAL_DOSEN'' \<and>
   tbl_log_absensi
     (background_video_analyzer ''t1'' 1 100 [(''S1'', demo_meta 2 ''/hasil_crop/a.jpg'')]
        (demo_db\<lparr>tbl_log_absensi := [demo_manual_row], log_seq := 1\<rparr>)) ! 0
     = demo_manual_row"
  using auto_evidence_keeps_manual_and_alpha
    [of 0 "demo_db\<lparr>tbl_log_absensi := [demo_manual_row], log_seq := 1\<rparr>"
        "''t1''" 1 100 "[(''S1'', demo_meta 2 ''/hasil_crop/a.jpg'')]"]
  by (simp add: demo_manual_row_def)




lemma logs_of_student_set_task_status [simp]:
  "logs_of_student (set_task_status task s db) n = logs_of_student db n"
  by (simp add: logs_of_student_def)

lemma log_matches_count [simp]:
  "log_matches n jid today (l\<lparr>jumlah_muncul := c\<rparr>) = log_matches n jid today l"
  by (simp add: log_matches_def)

lemma process_student_skipped:
  "skipped enrolled (fst nm) \<Longrightarrow> process_student task jid now enrolled nm db = Inr db"
  by (simp add: process_student_def)







lemma list_all_update_first:
  "list_all Q xs \<Longrightarrow> (\<And>x. Q x \<Longrightarrow> Q (f x)) \<Longrightarrow> list_all Q (update_first P f xs)"
  by (induction xs) auto

lemma counts_ok_set_task_status [simp]:
  "counts_ok (set_task_status task s db) = counts_ok db"
  by (simp add: counts_ok_def)

lemma existing_log_in_table:
  "existing_log db n jid today = Some r \<Longrightarrow> r \<in> set (tbl_log_absensi db)"
  unfolding existing_log_def by (auto simp: find_Some_iff)

lemma counts_ok_add_ai:
  "counts_ok db \<Longrightarrow> counts_ok (add_log db (new_ai_log task jid now n m))"
  by (simp add: counts_ok_def add_log_def new_ai_log_def)

lemma counts_ok_merge:
  "counts_ok db \<Longrightarrow>
   counts_ok (db\<lparr>tbl_log_absensi :=
     update_first P (\<lambda>l. l\<lparr>jumlah_muncul := Some c\<rparr>) (tbl_log_absensi db)\<rparr>)"
  unfolding counts_ok_def by (simp add: list_all_update_first)

lemma process_student_total:
  assumes "counts_ok db"
  shows "\<exists>db'. process_student task jid now enrolled nm db = Inr db' \<and> counts_ok db'"
proof (cases "skipped enrolled (fst nm)")
  case True
  with assms show ?thesis by (simp add: process_student_skipped)
next
  case ns: False
  show ?thesis
  proof (cases "existing_log db (fst nm) jid (date_of now)")
    case None
    with ns have "process_student task jid now enrolled nm db
        = Inr (add_log db (new_ai_log task jid now (fst nm) (snd nm)))"
      by (simp add: process_student_def Let_def)
    with counts_ok_add_ai[OF assms] show ?thesis by simp
  next
    case (Some ex)
    show ?thesis
    proof (cases "metode ex = ''AI_VIDEO''")
      case False
      with ns Some have "process_student task jid now enrolled nm db = Inr db"
        by (simp add: process_student_def Let_def)
      with assms show ?thesis by simp
    next
      case True
      from existing_log_in_table[OF Some] assms True obtain c where c: "jumlah_muncul ex = Some c"
        by (auto simp: counts_ok_def list_all_iff)
      with ns Some True have "process_student task jid now enrolled nm db
          = Inr (db\<lparr>tbl_log_absensi :=
                update_first (log_matches (fst nm) jid (date_of now))
                  (\<lambda>l. l\<lparr>jumlah_muncul := Some (c + meta_count (snd nm))\<rparr>)
                  (tbl_log_absensi db)\<rparr>)"
        by (simp add: process_student_def Let_def)
      with counts_ok_merge[OF assms] show ?thesis by simp
    qed
  qed
qed

lemma process_all_total:
  "counts_ok db \<Longrightarrow> \<exists>db'. process_all task jid now enrolled xs db = Inr db' \<and> counts_ok db'"
proof (induction xs arbitrary: db)
  case Nil
  then show ?case by simp
next
  case (Cons nm xs)
  from process_student_total[OF Cons.prems, of task jid now enrolled nm]
  obtain d where d: "process_student task jid now enrolled nm db = Inr d" and ok: "counts_ok d"
    by blast
  from Cons.IH[OF ok] d show ?case by simp
qed




lemma process_student_tables:
  assumes "process_student task jid now enrolled nm db = Inr db'"
  shows "tbl_jadwal db' = tbl_jadwal db \<and> tbl_kelas_enrollment db' = tbl_kelas_enrollment db"
  using assms
  by (cases rule: process_student_cases) (simp_all add: add_log_def)

lemma process_all_tables:
  "process_all task jid now enrolled xs db = Inr db' \<Longrightarrow>
   tbl_jadwal db' = tbl_jadwal db \<and> tbl_kelas_enrollment db' = tbl_kelas_enrollment db"
proof (induction xs arbitrary: db)
  case Nil
  then show ?case by simp
next
  case (Cons nm xs)
  from Cons.prems(1) obtain d where d: "process_student task jid now enrolled nm db = Inr d"
    and rest: "process_all task jid now enrolled xs d = Inr db'"
    by (auto split: sum.splits)
  from process_student_tables[OF d] Cons.IH[OF rest] show ?case by simp
qed




lemma analyzer_commits:
  assumes "counts_ok db" and "find_jadwal db jid = Some j"
  obtains db2 where
    "process_all task jid now (enrolled_nims_of db j) detected
       (set_task_status task ''completed'' db) = Inr db2"
    "background_video_analyzer task jid now detected db = db2"
    "counts_ok db2"
    "find_jadwal db2 jid = Some j"
    "enrolled_nims_of db2 j = enrolled_nims_of db j"
proof -
  from assms(1) have "counts_ok (set_task_status task ''completed'' db)" by simp
  from process_all_total[OF this, of task jid now "enrolled_nims_of db j" detected]
  obtain db2 where p: "process_all task jid now (enrolled_nims_of db j) detected
       (set_task_status task ''completed'' db) = Inr db2" and ok: "counts_ok db2"
    by blast
  with assms(2) have b: "background_video_analyzer task jid now detected db = db2"
    by (simp add: background_video_analyzer_def)
  from process_all_tables[OF p] assms(2)
  have "find_jadwal db2 jid = Some j" "enrolled_nims_of db2 j = enrolled_nims_of db j"
    by (simp_all add: find_jadwal_def enrolled_nims_of_def)
  with p b ok show ?thesis by (rule that)
qed




section \<open>Manual entry\<close>








section \<open>Closing a session\<close>

lemma enrolled_results_members:
  "set (enrolled_results db j) = members_with_embedding db j"
  by (auto simp: enrolled_results_def members_with_embedding_def is_enrolled_def find_None_iff)

lemma add_alpha_logs_tables [simp]:
  "tbl_mahasiswa (add_alpha_logs jid now present ns db) = tbl_mahasiswa db"
  "tbl_kelas_enrollment (add_alpha_logs jid now present ns db) = tbl_kelas_enrollment db"
  "tbl_jadwal (add_alpha_logs jid now present ns db) = tbl_jadwal db"
  "tbl_video_tasks (add_alpha_logs jid now present ns db) = tbl_video_tasks db"
  by (induction ns arbitrary: db) (simp_all add: add_log_def)

lemma add_alpha_logs_rows:
  "\<exists>new. tbl_log_absensi (add_alpha_logs jid now present ns db) = tbl_log_absensi db @ new \<and>
         map nim new = filter (\<lambda>n. n \<notin> set present) ns \<and>
         (\<forall>l\<in>set new. \<exists>k. l = (new_alpha_log (nim l) jid now)\<lparr>log_id := k\<rparr>)"
proof (induction ns arbitrary: db)
  case Nil
  then show ?case by simp
next
  case (Cons n ns)
  show ?case
  proof (cases "n \<in> set present")
    case True
    with Cons.IH[of db] show ?thesis by simp
  next
    case False
    let ?row = "(new_alpha_log n jid now)\<lparr>log_id := log_seq db\<rparr>"
    let ?db = "add_log db (new_alpha_log n jid now)"
    from Cons.IH[of ?db] obtain new where
      1: "tbl_log_absensi (add_alpha_logs jid now present ns ?db) = tbl_log_absensi ?db @ new" and
      2: "map nim new = filter (\<lambda>n. n \<notin> set present) ns" and
      3: "\<forall>l\<in>set new. \<exists>k. l = (new_alpha_log (nim l) jid now)\<lparr>log_id := k\<rparr>"
      by blast
    have row: "nim ?row = n" by (simp add: new_alpha_log_def)
    have "tbl_log_absensi (add_alpha_logs jid now present (n # ns) db)
        = tbl_log_absensi db @ (?row # new)"
      using False 1 by (simp add: add_log_def)
    moreover have "map nim (?row # new) = filter (\<lambda>n. n \<notin> set present) (n # ns)"
      using False 2 row by simp
    moreover have "\<forall>l\<in>set (?row # new). \<exists>k. l = (new_alpha_log (nim l) jid now)\<lparr>log_id := k\<rparr>"
      using 3 row by auto
    ultimately show ?thesis by blast
  qed
qed


lemma close_tasks_logs [simp]:
  "tbl_log_absensi (close_tasks jid db) = tbl_log_absensi db"
  "tbl_mahasiswa (close_tasks jid db) = tbl_mahasiswa db"
  "tbl_kelas_enrollment (close_tasks jid db) = tbl_kelas_enrollment db"
  "tbl_jadwal (close_tasks jid db) = tbl_jadwal db"
  by (simp_all add: close_tasks_def)


lemma close_tasks_closed:
  "t \<in> set (tbl_video_tasks (close_tasks jid db)) \<Longrightarrow> vt_jadwal_id t = Some jid \<Longrightarrow> is_closed t"
  by (auto simp: close_tasks_def)

lemma close_tasks_rest:
  "i < length (tbl_video_tasks db) \<Longrightarrow>
   tbl_video_tasks (close_tasks jid db) ! i =
     (if vt_jadwal_id (tbl_video_tasks db ! i) = Some jid
      then (tbl_video_tasks db ! i)\<lparr>is_closed := True\<rparr> else tbl_video_tasks db ! i)"
  by (simp add: close_tasks_def)

text \<open>
  Claim C6. For a stored session, closing succeeds; the attendance table grows by one row
  per student of (cohort members with an embedding) minus (students with a row for this
  session today), each student once, and every new row is the \<open>ALPHA_SYSTEM\<close> row with
  count 0 for this session stamped \<open>now\<close>; no other attendance row changes; every video
  task bound to the session ends closed and the other tasks are unchanged.
\<close>

theorem close_session_marks_absent:
  assumes "find_jadwal db jid = Some j"
  shows "\<exists>db' new. close_class_session jid now db = Inr db' \<and>
           tbl_log_absensi db' = tbl_log_absensi db @ new \<and>
           distinct (map nim new) \<and>
           set (map nim new)
             = members_with_embedding db j - set (present_results db jid (date_of now)) \<and>
           (\<forall>l\<in>set new. metode l = ''ALPHA_SYSTEM'' \<and> jumlah_muncul l = Some 0 \<and>
                         jadwal_id l = Some jid \<and> waktu_absen l = now \<and> \<not> is_disputed l) \<and>
           length (tbl_video_tasks db') = length (tbl_video_tasks db) \<and>
           (\<forall>i<length (tbl_video_tasks db).
              tbl_video_tasks db' ! i =
                (if vt_jadwal_id (tbl_video_tasks db ! i) = Some jid
                 then (tbl_video_tasks db ! i)\<lparr>is_closed := True\<rparr>
                 else tbl_video_tasks db ! i))"
proof -
  let ?ns = "remdups (enrolled_results db j)"
  let ?present = "present_results db jid (date_of now)"
  let ?db1 = "add_alpha_logs jid now ?present ?ns db"
  from add_alpha_logs_rows[of jid now ?present ?ns db] obtain new where
    1: "tbl_log_absensi ?db1 = tbl_log_absensi db @ new" and
    2: "map nim new = filter (\<lambda>n. n \<notin> set ?present) ?ns" and
    3: "\<forall>l\<in>set new. \<exists>k. l = (new_alpha_log (nim l) jid now)\<lparr>log_id := k\<rparr>"
    by blast
  have c: "close_class_session jid now db = Inr (close_tasks jid ?db1)"
    using assms by (simp add: close_class_session_def)
  have d: "distinct (map nim new)" unfolding 2 by simp
  have s: "set (map nim new) = members_with_embedding db j - set ?present"
    unfolding 2 by (auto simp: enrolled_results_members)
  have r: "\<forall>l\<in>set new. metode l = ''ALPHA_SYSTEM'' \<and> jumlah_muncul l = Some 0 \<and>
                         jadwal_id l = Some jid \<and> waktu_absen l = now \<and> \<not> is_disputed l"
  proof
    fix l assume "l \<in> set new"
    with 3 obtain k where "l = (new_alpha_log (nim l) jid now)\<lparr>log_id := k\<rparr>" by blast
    then have "metode l = metode ((new_alpha_log (nim l) jid now)\<lparr>log_id := k\<rparr>)"
      "jumlah_muncul l = jumlah_muncul ((new_alpha_log (nim l) jid now)\<lparr>log_id := k\<rparr>)"
      "jadwal_id l = jadwal_id ((new_alpha_log (nim l) jid now)\<lparr>log_id := k\<rparr>)"
      "waktu_absen l = waktu_absen ((new_alpha_log (nim l) jid now)\<lparr>log_id := k\<rparr>)"
      "is_disputed l = is_disputed ((new_alpha_log (nim l) jid now)\<lparr>log_id := k\<rparr>)"
      by simp_all
    then show "metode l = ''ALPHA_SYSTEM'' \<and> jumlah_muncul l = Some 0 \<and>
                         jadwal_id l = Some jid \<and> waktu_absen l = now \<and> \<not> is_disputed l"
      by (simp add: new_alpha_log_def)
  qed
  have t1: "length (tbl_video_tasks (close_tasks jid ?db1)) = length (tbl_video_tasks db)"
    by (simp add: close_tasks_def)
  have t2: "\<forall>i<length (tbl_video_tasks db).
              tbl_video_tasks (close_tasks jid ?db1) ! i =
                (if vt_jadwal_id (tbl_video_tasks db ! i) = Some jid
                 then (tbl_video_tasks db ! i)\<lparr>is_closed := True\<rparr>
                 else tbl_video_tasks db ! i)"
    by (simp add: close_tasks_rest)
  from c 1 d s r t1 t2 show ?thesis
    by (intro exI[of _ "close_tasks jid ?db1"] exI[of _ new]) simp
qed

theorem close_session_marks_absent_witness:
  "find_jadwal demo_db_ai 1 = Some \<lparr>jdw_jadwal_id = 1, jdw_student_class_id = Some 7\<rparr> \<and>
   (\<exists>db' new. close_class_session 1 200 demo_db_ai = Inr db' \<and>
      tbl_log_absensi db' = demo_ai_row # new \<and> distinct (map nim new) \<and>
      set (map nim new) = {''S2'', ''S3''} \<and>
      (\<forall>l\<in>set new. metode l = ''ALPHA_SYSTEM'' \<and> jumlah_muncul l = Some 0))"
proof -
  let ?j = "\<lparr>jdw_jadwal_id = 1, jdw_student_class_id = Some 7\<rparr>"
  have j: "find_jadwal demo_db_ai 1 = Some ?j"
    by (simp add: demo_db_ai_def demo_db_def find_jadwal_def)
  have m: "members_with_embedding demo_db_ai ?j = {''S1'', ''S2'', ''S3''}"
    by (simp add: members_with_embedding_def is_enrolled_def demo_db_ai_def demo_db_def)
  have p: "set (present_results demo_db_ai 1 (date_of 200)) = {''S1''}"
    by (simp add: present_results_def demo_db_ai_def demo_db_def demo_ai_row_def date_of_def)
  have l: "tbl_log_absensi demo_db_ai = [demo_ai_row]"
    by (simp add: demo_db_ai_def)
  have diff: "members_with_embedding demo_db_ai ?j - set (present_results demo_db_ai 1 (date_of 200))
      = {''S2'', ''S3''}"
    unfolding m p by auto
  from close_session_marks_absent[OF j, of 200]
  obtain db' new where 1: "close_class_session 1 200 demo_db_ai = Inr db'" and
    2: "tbl_log_absensi db' = tbl_log_absensi demo_db_ai @ new" and 3: "distinct (map nim new)" and
    4: "set (map nim new)
       = members_with_embedding demo_db_ai ?j - set (present_results demo_db_ai 1 (date_of 200))" and
    5: "\<forall>l\<in>set new. metode l = ''ALPHA_SYSTEM'' \<and> jumlah_muncul l = Some 0 \<and>
                         jadwal_id l = Some 1 \<and> waktu_absen l = 200 \<and> \<not> is_disputed l"
    by blast
  from 2 have l2: "tbl_log_absensi db' = demo_ai_row # new" unfolding l by simp
  from 4 have l4: "set (map nim new) = {''S2'', ''S3''}" unfolding diff .
  from 5 have l5: "\<forall>l\<in>set new. metode l = ''ALPHA_SYSTEM'' \<and> jumlah_muncul l = Some 0" by blast
  from 1 l2 3 l4 l5 have "\<exists>db' new. close_class_session 1 200 demo_db_ai = Inr db' \<and>
      tbl_log_absensi db' = demo_ai_row # new \<and> distinct (map nim new) \<and>
      set (map nim new) = {''S2'', ''S3''} \<and>
      (\<forall>l\<in>set new. metode l = ''ALPHA_SYSTEM'' \<and> jumlah_muncul l = Some 0)"
    by blast
  with j show ?thesis by (rule conjI)
qed

lemma present_results_close_tasks [simp]:
  "present_results (close_tasks jid db) jid' today = present_results db jid' today"
  by (simp add: present_results_def)






section \<open>The uniqueness invariant\<close>






lemma unique_set_task_status [simp]:
  "unique_attendance (set_task_status task s db) = unique_attendance db"
  by (simp add: unique_attendance_def)




lemma unique_close_tasks [simp]:
  "unique_attendance (close_tasks jid db) = unique_attendance db"
  by (simp add: unique_attendance_def)





section \<open>Identity index\<close>

lemma argmax_props:
  assumes "xs \<noteq> []"
  shows "argmax xs < length xs" and "\<forall>j<length xs. xs ! j \<le> xs ! argmax xs"
    and "\<forall>j<argmax xs. xs ! j < xs ! argmax xs"
proof -
  let ?m = "Max (set xs)"
  let ?P = "\<lambda>x. x \<noteq> ?m"
  from assms have mem: "?m \<in> set xs" by simp
  have lt: "argmax xs < length xs"
  proof (rule ccontr)
    assume "\<not> argmax xs < length xs"
    then have "length (takeWhile ?P xs) = length xs"
      unfolding argmax_def using length_takeWhile_le[of ?P xs] by simp
    moreover have "takeWhile ?P xs = take (length (takeWhile ?P xs)) xs"
      by (rule takeWhile_eq_take)
    ultimately have "takeWhile ?P xs = xs" by simp
    then have "\<forall>x\<in>set xs. ?P x" by simp
    with mem show False by blast
  qed
  then show "argmax xs < length xs" .
  from lt have at: "xs ! argmax xs = ?m"
    unfolding argmax_def using nth_length_takeWhile[of ?P xs] by simp
  show "\<forall>j<length xs. xs ! j \<le> xs ! argmax xs"
    unfolding at by simp
  show "\<forall>j<argmax xs. xs ! j < xs ! argmax xs"
  proof (intro allI impI)
    fix j assume j: "j < argmax xs"
    then have jl: "j < length (takeWhile ?P xs)" by (simp add: argmax_def)
    then have "takeWhile ?P xs ! j = xs ! j" by (rule takeWhile_nth)
    moreover from jl have "takeWhile ?P xs ! j \<in> set (takeWhile ?P xs)" by simp
    then have "?P (takeWhile ?P xs ! j)" by (rule set_takeWhileD[THEN conjunct2])
    ultimately have ne: "xs ! j \<noteq> ?m" by simp
    from j lt have "xs ! j \<le> ?m" by simp
    with ne at show "xs ! j < xs ! argmax xs" by simp
  qed
qed

lemma identify_empty:
  "known_matrix st = None \<or> known_ids st = [] \<Longrightarrow> identify_face_fast st emb = (''Unknown'', 0)"
  by (auto simp: identify_face_fast_def split: option.splits)

lemma identify_scored:
  assumes m: "known_matrix st = Some M" and ids: "known_ids st \<noteq> []"
    and len: "length (known_ids st) = length M"
    and dims: "list_all (\<lambda>row. length row = length emb) M"
  shows "identify_face_fast st emb =
           (let scores = map (\<lambda>row. dot row (normalize emb)) M
            in if scores ! argmax scores > 1 / 2
               then (known_ids st ! argmax scores, scores ! argmax scores)
               else (''Unknown'', 0))"
proof -
  let ?scores = "map (\<lambda>row. dot row (normalize emb)) M"
  from ids len have ne: "M \<noteq> []" by auto
  then have "?scores \<noteq> []" by simp
  from argmax_props(1)[OF this] len have "argmax ?scores < length (known_ids st)" by simp
  with m ids ne dims show ?thesis
    by (simp add: identify_face_fast_def Let_def FACE_SIMILARITY_THRESHOLD_def)
qed

text \<open>
  Claim C8. With no matrix or no ids the query answers \<open>("Unknown", 0)\<close>. With a
  matrix of as many rows as ids, every row of the input's length, there is a row index
  \<open>i\<close> whose score (the dot product of the row with the normalized input) is the largest
  of all rows and strictly above every earlier row; the query answers the id at \<open>i\<close>
  with that score when the score is above 0.50, and \<open>("Unknown", 0)\<close> otherwise.
\<close>

theorem identify_face_fast_argmax_threshold:
  "(known_matrix st = None \<or> known_ids st = [] \<longrightarrow>
      identify_face_fast st emb = (''Unknown'', 0)) \<and>
   (\<forall>M. known_matrix st = Some M \<and> known_ids st \<noteq> [] \<and>
        length (known_ids st) = length M \<and>
        list_all (\<lambda>row. length row = length emb) M \<longrightarrow>
      (\<exists>i<length M.
         (\<forall>j<length M. dot (M ! j) (normalize emb) \<le> dot (M ! i) (normalize emb)) \<and>
         (\<forall>j<i. dot (M ! j) (normalize emb) < dot (M ! i) (normalize emb)) \<and>
         identify_face_fast st emb =
           (if dot (M ! i) (normalize emb) > FACE_SIMILARITY_THRESHOLD
            then (known_ids st ! i, dot (M ! i) (normalize emb))
            else (''Unknown'', 0))))"
proof (intro conjI allI impI)
  assume "known_matrix st = None \<or> known_ids st = []"
  then show "identify_face_fast st emb = (''Unknown'', 0)" by (rule identify_empty)
next
  fix M
  assume a: "known_matrix st = Some M \<and> known_ids st \<noteq> [] \<and>
        length (known_ids st) = length M \<and>
        list_all (\<lambda>row. length row = length emb) M"
  let ?scores = "map (\<lambda>row. dot row (normalize emb)) M"
  let ?i = "argmax ?scores"
  from a have ne: "?scores \<noteq> []" by auto
  from argmax_props[OF ne] have i: "?i < length M"
    and mx: "\<forall>j<length M. ?scores ! j \<le> ?scores ! ?i"
    and first: "\<forall>j<?i. ?scores ! j < ?scores ! ?i"
    by simp_all
  from i have si: "?scores ! ?i = dot (M ! ?i) (normalize emb)" by simp
  have 1: "\<forall>j<length M. dot (M ! j) (normalize emb) \<le> dot (M ! ?i) (normalize emb)"
    using mx si by simp
  have 2: "\<forall>j<?i. dot (M ! j) (normalize emb) < dot (M ! ?i) (normalize emb)"
  proof (intro allI impI)
    fix j assume j: "j < ?i"
    with i have "j < length M" by simp
    then have "?scores ! j = dot (M ! j) (normalize emb)" by simp
    moreover from first j have "?scores ! j < ?scores ! ?i" by blast
    ultimately show "dot (M ! j) (normalize emb) < dot (M ! ?i) (normalize emb)"
      using si by simp
  qed
  from a have "identify_face_fast st emb =
           (let scores = ?scores
            in if scores ! argmax scores > 1 / 2
               then (known_ids st ! argmax scores, scores ! argmax scores)
               else (''Unknown'', 0))"
    by (intro identify_scored) simp_all
  then have 3: "identify_face_fast st emb =
           (if dot (M ! ?i) (normalize emb) > FACE_SIMILARITY_THRESHOLD
            then (known_ids st ! ?i, dot (M ! ?i) (normalize emb))
            else (''Unknown'', 0))"
    unfolding Let_def si FACE_SIMILARITY_THRESHOLD_def .
  from i 1 2 3 show "\<exists>i<length M.
         (\<forall>j<length M. dot (M ! j) (normalize emb) \<le> dot (M ! i) (normalize emb)) \<and>
         (\<forall>j<i. dot (M ! j) (normalize emb) < dot (M ! i) (normalize emb)) \<and>
         identify_face_fast st emb =
           (if dot (M ! i) (normalize emb) > FACE_SIMILARITY_THRESHOLD
            then (known_ids st ! i, dot (M ! i) (normalize emb))
            else (''Unknown'', 0))"
    by blast
qed

lemma normalize_3_4: "normalize [3, 4] = [3 / 5, 4 / 5]"
proof -
  have "sqrt 25 = 5" by (rule real_sqrt_unique) simp_all
  then show ?thesis by (simp add: normalize_def norm_l2_def)
qed

theorem identify_face_fast_argmax_threshold_witness:
  "identify_face_fast (demo_index\<lparr>known_matrix := None\<rparr>) [3, 4] = (''Unknown'', 0) \<and>
   identify_face_fast demo_index [3, 4] = (''S2'', 4 / 5) \<and>
   identify_face_fast demo_index [-3, -4] = (''Unknown'', 0)"
proof -
  let ?M = "[[1, 0], [0, 1 :: real]]"
  have A: "identify_face_fast (demo_index\<lparr>known_matrix := None\<rparr>) [3, 4] = (''Unknown'', 0)"
    using identify_face_fast_argmax_threshold[of "demo_index\<lparr>known_matrix := None\<rparr>" "[3, 4]"]
    by simp
  have ids: "known_ids demo_index = [''S1'', ''S2'']" by (simp add: demo_index_def)
  have pre: "known_matrix demo_index = Some ?M \<and> known_ids demo_index \<noteq> [] \<and>
        length (known_ids demo_index) = length ?M \<and>
        list_all (\<lambda>row. length row = length [3, 4 :: real]) ?M"
    and pre': "known_matrix demo_index = Some ?M \<and> known_ids demo_index \<noteq> [] \<and>
        length (known_ids demo_index) = length ?M \<and>
        list_all (\<lambda>row. length row = length [-3, -4 :: real]) ?M"
    by (simp_all add: demo_index_def)
  have s: "dot (?M ! 0) (normalize [3, 4]) = 3 / 5" "dot (?M ! 1) (normalize [3, 4]) = 4 / 5"
    by (simp_all add: normalize_3_4 dot_def)
  from identify_face_fast_argmax_threshold[of demo_index "[3, 4]", THEN conjunct2, rule_format, OF pre]
  obtain i where i: "i < length ?M"
    and mx: "\<forall>j<length ?M. dot (?M ! j) (normalize [3, 4]) \<le> dot (?M ! i) (normalize [3, 4])"
    and r: "identify_face_fast demo_index [3, 4] =
           (if dot (?M ! i) (normalize [3, 4]) > FACE_SIMILARITY_THRESHOLD
            then (known_ids demo_index ! i, dot (?M ! i) (normalize [3, 4]))
            else (''Unknown'', 0))"
    by blast
  have "(1::nat) < length ?M" by simp
  from mx[rule_format, OF this]
  have "dot (?M ! 1) (normalize [3, 4]) \<le> dot (?M ! i) (normalize [3, 4])" .
  moreover from i have "i = 0 \<or> i = 1" by auto
  ultimately have "i = 1" using s by auto
  with r s ids have B: "identify_face_fast demo_index [3, 4] = (''S2'', 4 / 5)"
    by (simp add: FACE_SIMILARITY_THRESHOLD_def)
  have n: "normalize [-3, -4] = [- 3 / 5, - 4 / 5]"
  proof -
    have "sqrt 25 = 5" by (rule real_sqrt_unique) simp_all
    then show ?thesis by (simp add: normalize_def norm_l2_def)
  qed
  have s': "dot (?M ! 0) (normalize [-3, -4]) = - 3 / 5" "dot (?M ! 1) (normalize [-3, -4]) = - 4 / 5"
    by (simp_all add: n dot_def)
  from identify_face_fast_argmax_threshold[of demo_index "[-3, -4]", THEN conjunct2, rule_format, OF pre']
  obtain k where k: "k < length ?M"
    and r': "identify_face_fast demo_index [-3, -4] =
           (if dot (?M ! k) (normalize [-3, -4]) > FACE_SIMILARITY_THRESHOLD
            then (known_ids demo_index ! k, dot (?M ! k) (normalize [-3, -4]))
            else (''Unknown'', 0))"
    by blast
  from k have "k = 0 \<or> k = 1" by auto
  with r' s' have C: "identify_face_fast demo_index [-3, -4] = (''Unknown'', 0)"
    by (auto simp: FACE_SIMILARITY_THRESHOLD_def)
  from A B C show ?thesis by simp
qed

lemma load_rows_all:
  "load_rows rows = (map fst rows, map (\<lambda>r. normalize (snd r)) rows)"
  by (induction rows) (auto simp: convert_row_def)

text \<open>
  Claim C10. When the fetch raises, the reload returns the index (ids, matrix and reload
  time) exactly as it was, so a query answers as before. A reload that leaves an index
  which had a matrix without one comes from a fetch that succeeded with zero students with
  embeddings; and such a fetch empties the index.
\<close>

theorem reload_keeps_index_on_fetch_error:
  "reload_face_database_async now (Inl e) st = st \<and>
   identify_face_fast (reload_face_database_async now (Inl e) st) emb
     = identify_face_fast st emb \<and>
   (known_matrix st \<noteq> None \<and>
    known_matrix (reload_face_database_async now fetched st) = None \<longrightarrow>
      (\<exists>db. fetched = Inr db \<and> rows_with_embedding db = [])) \<and>
   (rows_with_embedding db = [] \<longrightarrow>
      known_ids (reload_face_database_async now (Inr db) st) = [] \<and>
      known_matrix (reload_face_database_async now (Inr db) st) = None)"
proof (intro conjI impI)
  show 1: "reload_face_database_async now (Inl e) st = st"
    by (simp add: reload_face_database_async_def)
  show "identify_face_fast (reload_face_database_async now (Inl e) st) emb
     = identify_face_fast st emb"
    unfolding 1 ..
next
  assume a: "known_matrix st \<noteq> None \<and>
    known_matrix (reload_face_database_async now fetched st) = None"
  show "\<exists>db. fetched = Inr db \<and> rows_with_embedding db = []"
  proof (cases fetched)
    case (Inl e)
    then have "reload_face_database_async now fetched st = st"
      by (simp add: reload_face_database_async_def)
    with a show ?thesis by auto
  next
    case (Inr db)
    with a have "rows_with_embedding db = []"
      by (auto simp: reload_face_database_async_def load_rows_all Let_def split: if_splits)
    with Inr show ?thesis by simp
  qed
next
  assume "rows_with_embedding db = []"
  then show "known_ids (reload_face_database_async now (Inr db) st) = []"
    by (simp add: reload_face_database_async_def)
next
  assume "rows_with_embedding db = []"
  then show "known_matrix (reload_face_database_async now (Inr db) st) = None"
    by (simp add: reload_face_database_async_def)
qed

theorem reload_keeps_index_on_fetch_error_witness:
  "reload_face_database_async 60 (Inl SQLAlchemyError) demo_index = demo_index \<and>
   known_matrix demo_index \<noteq> None \<and>
   rows_with_embedding (demo_db\<lparr>tbl_mahasiswa := []\<rparr>) = [] \<and>
   known_matrix (reload_face_database_async 60 (Inr (demo_db\<lparr>tbl_mahasiswa := []\<rparr>)) demo_index)
     = None \<and>
   known_ids (reload_face_database_async 60 (Inr demo_db) demo_index) = [''S1'', ''S2'', ''S3'']"
proof -
  have r: "rows_with_embedding (demo_db\<lparr>tbl_mahasiswa := []\<rparr>) = []"
    by (simp add: rows_with_embedding_def)
  have m: "known_matrix demo_index \<noteq> None" by (simp add: demo_index_def)
  have k: "known_ids (reload_face_database_async 60 (Inr demo_db) demo_index) = [''S1'', ''S2'', ''S3'']"
    by (simp add: reload_face_database_async_def load_rows_all rows_with_embedding_def demo_db_def)
  from reload_keeps_index_on_fetch_error
    [of 60 SQLAlchemyError demo_index _ _ "demo_db\<lparr>tbl_mahasiswa := []\<rparr>"] r m k
  show ?thesis by simp
qed

section \<open>Frame sampling\<close>

lemma video_loop_terminates:
  assumes "0 < step"
  shows "\<exists>n\<ge>k. video_loop v step (int k * step) sampled
            = Some (sampled @ map (\<lambda>i. int i * step) [k..<n]) \<and>
          (\<forall>i. k \<le> i \<and> i < n \<longrightarrow> read_ok v (int i * step)) \<and>
          (\<forall>i. k < i \<and> i < n \<longrightarrow> int i * step < total_frames v) \<and>
          (\<not> read_ok v (int n * step) \<or> (k < n \<and> total_frames v \<le> int n * step))"
proof (induction "nat (total_frames v - int k * step)" arbitrary: k sampled rule: less_induct)
  case less
  show ?case
  proof (cases "read_ok v (int k * step)")
    case False
    then have "video_loop v step (int k * step) sampled = Some sampled"
      by (subst video_loop.simps) simp
    moreover have "\<forall>i. k \<le> i \<and> i < k \<longrightarrow> read_ok v (int i * step)" by auto
    moreover have "\<forall>i. k < i \<and> i < k \<longrightarrow> int i * step < total_frames v" by auto
    ultimately show ?thesis using False by (intro exI[of _ k]) simp
  next
    case ok: True
    show ?thesis
    proof (cases "int k * step + step \<ge> total_frames v")
      case True
      with ok have "video_loop v step (int k * step) sampled = Some (sampled @ [int k * step])"
        by (subst video_loop.simps) simp
      then have 1: "video_loop v step (int k * step) sampled
          = Some (sampled @ map (\<lambda>i. int i * step) [k..<Suc k])"
        by simp
      have nxt: "int (Suc k) * step = int k * step + step" by (simp add: algebra_simps)
      have only: "i = k" if "k \<le> i \<and> i < Suc k" for i using that by arith
      have 2: "\<forall>i. k \<le> i \<and> i < Suc k \<longrightarrow> read_ok v (int i * step)"
        using ok only by blast
      have 3: "\<forall>i. k < i \<and> i < Suc k \<longrightarrow> int i * step < total_frames v"
        by auto
      have 4: "\<not> read_ok v (int (Suc k) * step) \<or>
               (k < Suc k \<and> total_frames v \<le> int (Suc k) * step)"
        using True unfolding nxt by simp
      have "k \<le> Suc k" by simp
      with 1 2 3 4 show ?thesis by blast
    next
      case False
      have nxt: "int (Suc k) * step = int k * step + step" by (simp add: algebra_simps)
      from False assms have "nat (total_frames v - int (Suc k) * step)
          < nat (total_frames v - int k * step)"
        unfolding nxt by linarith
      from less[OF this, of "sampled @ [int k * step]"] obtain n where n: "n \<ge> Suc k"
        and run: "video_loop v step (int (Suc k) * step) (sampled @ [int k * step])
            = Some ((sampled @ [int k * step]) @ map (\<lambda>i. int i * step) [Suc k..<n])"
        and r: "\<forall>i. Suc k \<le> i \<and> i < n \<longrightarrow> read_ok v (int i * step)"
        and b: "\<forall>i. Suc k < i \<and> i < n \<longrightarrow> int i * step < total_frames v"
        and stop: "\<not> read_ok v (int n * step) \<or> (Suc k < n \<and> total_frames v \<le> int n * step)"
        by blast
      from ok False have "video_loop v step (int k * step) sampled
          = video_loop v step (int k * step + step) (sampled @ [int k * step])"
        by (subst video_loop.simps) simp
      with run have 1: "video_loop v step (int k * step) sampled
          = Some (sampled @ map (\<lambda>i. int i * step) [k..<n])"
        using n unfolding nxt by (simp add: upt_conv_Cons)
      have 2: "\<forall>i. k \<le> i \<and> i < n \<longrightarrow> read_ok v (int i * step)"
      proof (intro allI impI)
        fix i assume i: "k \<le> i \<and> i < n"
        show "read_ok v (int i * step)"
        proof (cases "i = k")
          case True
          with ok show ?thesis by simp
        next
          case False
          with i have "Suc k \<le> i \<and> i < n" by arith
          with r show ?thesis by blast
        qed
      qed
      have 3: "\<forall>i. k < i \<and> i < n \<longrightarrow> int i * step < total_frames v"
      proof (intro allI impI)
        fix i assume i: "k < i \<and> i < n"
        show "int i * step < total_frames v"
        proof (cases "i = Suc k")
          case True
          with False show ?thesis unfolding True nxt by simp
        next
          case False
          with i have "Suc k < i \<and> i < n" by arith
          with b show ?thesis by blast
        qed
      qed
      from n have kn: "k < n" by arith
      with stop have 4: "\<not> read_ok v (int n * step) \<or> (k < n \<and> total_frames v \<le> int n * step)"
        by blast
      from kn have "k \<le> n" by simp
      with 1 2 3 4 show ?thesis by blast
    qed
  qed
qed

lemma video_loop_zero_step:
  assumes "video_loop v step idx sampled = Some y"
  shows "\<not> (step = 0 \<and> read_ok v idx \<and> idx < total_frames v)"
proof (rule video_loop.raw_induct
    [where P = "\<lambda>v step idx sampled y. \<not> (step = 0 \<and> read_ok v idx \<and> idx < total_frames v)",
     OF _ assms])
  fix f :: "video \<Rightarrow> int \<Rightarrow> int \<Rightarrow> int list \<Rightarrow> int list option"
  fix v step idx sampled y
  assume IH: "\<And>v step idx sampled y. f v step idx sampled = Some y \<Longrightarrow>
                \<not> (step = 0 \<and> read_ok v idx \<and> idx < total_frames v)"
    and body: "(if \<not> read_ok v idx then Some sampled
      else if total_frames v \<le> idx + step then Some (sampled @ [idx])
           else f v step (idx + step) (sampled @ [idx])) = Some y"
  show "\<not> (step = 0 \<and> read_ok v idx \<and> idx < total_frames v)"
  proof
    assume a: "step = 0 \<and> read_ok v idx \<and> idx < total_frames v"
    with body have "f v step (idx + step) (sampled @ [idx]) = Some y" by simp
    from IH[OF this] a show False by simp
  qed
qed

lemma video_loop_zero_step_diverges:
  assumes "read_ok v idx" and "idx < total_frames v"
  shows "video_loop v 0 idx sampled = None"
proof (cases "video_loop v 0 idx sampled")
  case None
  then show ?thesis .
next
  case (Some y)
  from video_loop_zero_step[OF Some] assms show ?thesis by simp
qed

text \<open>
  Claim C9, as amended. When the interval \<open>int(fps \<times> 1.5)\<close> (truncated, not rounded;
  fps 0 read as 30) is positive, the loop returns: it samples the offsets
  \<open>0, step, 2\<cdot>step, \<dots>, (n - 1)\<cdot>step\<close>, each read successfully and, after the first,
  each below the frame count, and it leaves at the first offset \<open>n\<cdot>step\<close> that has
  reached the frame count or whose read fails; a failed read is not tried again.
\<close>

theorem sampling_terminates_for_positive_interval:
  assumes "0 < frame_interval v"
  shows "\<exists>n. sampled_frames v = Some (map (\<lambda>k. int k * frame_interval v) [0..<n]) \<and>
           (\<forall>k<n. read_ok v (int k * frame_interval v)) \<and>
           (\<forall>k. 0 < k \<and> k < n \<longrightarrow> int k * frame_interval v < total_frames v) \<and>
           (\<not> read_ok v (int n * frame_interval v) \<or>
            (0 < n \<and> total_frames v \<le> int n * frame_interval v))"
proof -
  from video_loop_terminates[OF assms, of 0 v "[]"] obtain n where
    1: "video_loop v (frame_interval v) (int 0 * frame_interval v) []
          = Some ([] @ map (\<lambda>i. int i * frame_interval v) [0..<n])" and
    2: "\<forall>i. 0 \<le> i \<and> i < n \<longrightarrow> read_ok v (int i * frame_interval v)" and
    3: "\<forall>i. 0 < i \<and> i < n \<longrightarrow> int i * frame_interval v < total_frames v" and
    4: "\<not> read_ok v (int n * frame_interval v) \<or>
        (0 < n \<and> total_frames v \<le> int n * frame_interval v)"
    by blast
  from 1 have "sampled_frames v = Some (map (\<lambda>k. int k * frame_interval v) [0..<n])"
    by (simp add: sampled_frames_def)
  moreover from 2 have "\<forall>k<n. read_ok v (int k * frame_interval v)" by simp
  ultimately show ?thesis using 3 4 by blast
qed

theorem sampling_terminates_for_positive_interval_witness:
  "0 < frame_interval (demo_video 30) \<and> frame_interval (demo_video 30) = 45 \<and>
   (\<exists>n. sampled_frames (demo_video 30) = Some (map (\<lambda>k. int k * 45) [0..<n]) \<and>
        (0 < n \<and> 100 \<le> int n * 45))"
proof -
  have f: "frame_interval (demo_video 30) = 45"
    by (simp add: frame_interval_def py_int_def demo_video_def)
  then have p: "0 < frame_interval (demo_video 30)" by simp
  have t: "total_frames (demo_video 30) = 100" "\<And>i. read_ok (demo_video 30) i"
    by (simp_all add: demo_video_def)
  from sampling_terminates_for_positive_interval[OF p] obtain n where
    "sampled_frames (demo_video 30) = Some (map (\<lambda>k. int k * frame_interval (demo_video 30)) [0..<n])"
    "\<not> read_ok (demo_video 30) (int n * frame_interval (demo_video 30)) \<or>
            (0 < n \<and> total_frames (demo_video 30) \<le> int n * frame_interval (demo_video 30))"
    by blast
  then have "sampled_frames (demo_video 30) = Some (map (\<lambda>k. int k * 45) [0..<n]) \<and>
        (0 < n \<and> 100 \<le> int n * 45)"
    unfolding f by (simp add: t)
  with p f show ?thesis by blast
qed

text \<open>
  Claim C9 as stated fails: at 29.97 fps the interval is 44 frames where the rounded
  product is 45, and at 0.5 fps the interval is 0 and the loop never leaves.
\<close>

theorem sampling_offsets_counterexample:
  "frame_interval (demo_video (2997 / 100)) = 44 \<and>
   spec_offset (demo_video (2997 / 100)) 1 = 45 \<and>
   sampled_frames (demo_video (2997 / 100)) = Some [0, 44, 88] \<and>
   frame_interval (demo_video (1 / 2)) = 0 \<and>
   sampled_frames (demo_video (1 / 2)) = None"
proof -
  have 1: "frame_interval (demo_video (2997 / 100)) = 44"
    by (simp add: frame_interval_def py_int_def demo_video_def)
  have 2: "spec_offset (demo_video (2997 / 100)) 1 = 45"
    by (simp add: spec_offset_def demo_video_def round_def)
  have 3: "sampled_frames (demo_video (2997 / 100)) = Some [0, 44, 88]"
    unfolding sampled_frames_def 1
    by (simp add: video_loop.simps demo_video_def)
  have 4: "frame_interval (demo_video (1 / 2)) = 0"
    by (simp add: frame_interval_def py_int_def demo_video_def)
  have "video_loop (demo_video (1 / 2)) 0 0 [] = None"
    by (rule video_loop_zero_step_diverges) (simp_all add: demo_video_def)
  then have 5: "sampled_frames (demo_video (1 / 2)) = None"
    by (simp add: sampled_frames_def 4)
  from 1 2 3 4 5 show ?thesis by simp
qed

section \<open>The invariants are established by the code\<close>

text \<open>
  Every row the ledger writes has a count, so \<open>counts_ok\<close> holds of a store that only
  these operations have written.
\<close>

lemma counts_ok_add_alpha_logs:
  "counts_ok db \<Longrightarrow> counts_ok (add_alpha_logs jid now present ns db)"
proof (induction ns arbitrary: db)
  case Nil
  then show ?case by simp
next
  case (Cons n ns)
  have "counts_ok (add_log db (new_alpha_log n jid now))"
    using Cons.prems by (simp add: counts_ok_def add_log_def new_alpha_log_def)
  with Cons show ?case by simp
qed

lemma counts_ok_invariant:
  assumes "counts_ok db"
  shows "counts_ok (background_video_analyzer task jid now detected db)"
    and "counts_ok (committed db (endpoint_manual_absen n jid now db))"
    and "counts_ok (committed db (close_class_session jid now db))"
proof -
  show "counts_ok (background_video_analyzer task jid now detected db)"
  proof (cases "find_jadwal db jid")
    case None
    with assms show ?thesis by (simp add: background_video_analyzer_def)
  next
    case (Some j)
    from analyzer_commits[OF assms Some, of task now detected] show ?thesis by metis
  qed
  show "counts_ok (committed db (endpoint_manual_absen n jid now db))"
  proof (cases "endpoint_manual_absen n jid now db")
    case (Inl e)
    with assms show ?thesis by (simp add: committed_def)
  next
    case (Inr db')
    have a: "counts_ok (add_log db (new_manual_log n jid now))"
      using assms by (simp add: counts_ok_def add_log_def new_manual_log_def)
    have b: "counts_ok (db\<lparr>tbl_log_absensi :=
         update_first (log_matches n jid (date_of now)) (force_manual now) (tbl_log_absensi db)\<rparr>)"
      using assms unfolding counts_ok_def
      by (simp add: list_all_update_first force_manual_def)
    from Inr have "db' = add_log db (new_manual_log n jid now) \<or>
        db' = db\<lparr>tbl_log_absensi :=
         update_first (log_matches n jid (date_of now)) (force_manual now) (tbl_log_absensi db)\<rparr>"
      by (auto simp: endpoint_manual_absen_def split: if_splits option.splits)
    with a b Inr show ?thesis by (auto simp: committed_def)
  qed
  show "counts_ok (committed db (close_class_session jid now db))"
  proof (cases "find_jadwal db jid")
    case None
    with assms show ?thesis by (simp add: close_class_session_def committed_def)
  next
    case (Some j)
    have "counts_ok (close_tasks jid (add_alpha_logs jid now (present_results db jid (date_of now))
             (remdups (enrolled_results db j)) db))"
      using counts_ok_add_alpha_logs[OF assms] by (simp add: counts_ok_def)
    with Some show ?thesis by (simp add: close_class_session_def committed_def)
  qed
qed

text \<open>
  A successful reload leaves a consistent index: as many ids as rows, and a matrix only
  when there is a row; rows keep the length of the stored vectors.
\<close>

lemma reload_index_consistent:
  "case known_matrix (reload_face_database_async now (Inr db) st) of
     None \<Rightarrow> known_ids (reload_face_database_async now (Inr db) st) = []
   | Some M \<Rightarrow> M \<noteq> [] \<and> length (known_ids (reload_face_database_async now (Inr db) st)) = length M \<and>
       map length M = map (\<lambda>r. length (snd r)) (rows_with_embedding db)"
  by (simp add: reload_face_database_async_def load_rows_all Let_def normalize_def comp_def)

end
